theory Spec2Isabelle
  imports Complex_Main
begin

section \<open>The whiteboard's document model\<close>

text \<open>
  The whiteboard component keeps a list of shapes and an activity log, two stacks of
  snapshots for undo and redo, and replicates every local change to the other browser
  contexts over a broadcast channel.

  Conventions of the embedding:
  \<^item> a JavaScript \<open>number\<close> is a \<open>real\<close> (the finite numbers, computed exactly); the one
    field the code itself tests for being a finite number, \<open>fontSize\<close>, is a
    \<open>real option\<close> with \<open>None\<close> for everything \<open>Number.isFinite\<close> rejects;
  \<^item> \<open>rows\<close> and \<open>cols\<close> are numbers like the others: the table tool clamps what the
    user types to \<open>[1, 12]\<close> and does not round it, so a table can have \<open>rows = 2.5\<close>;
    the cell indices of \<open>updateTableCell\<close> come out of \<open>Math.floor\<close> and a range check,
    and are \<open>nat\<close>;
  \<^item> a JavaScript string is a \<open>string\<close>, one \<open>char\<close> per code unit;
  \<^item> an array is a list, its last element the top of a stack (\<open>push\<close> appends,
    \<open>pop\<close> takes the last element);
  \<^item> \<open>randomId()\<close> and \<open>Date.now()\<close> are arguments (\<open>rid\<close>, \<open>now\<close>) of the
    operation that calls them.
\<close>

record point =
  point_x :: real
  point_y :: real

record base_shape =
  shape_id :: string
  createdBy :: string
  createdAt :: nat

record path_shape = base_shape +
  points :: "point list"
  stroke :: string
  strokeWidth :: real

record text_shape = base_shape +
  text_x :: real
  text_y :: real
  text_str :: string
  color :: string
  fontSize :: "real option"

text \<open>
  \<open>cells\<close> is optional on shapes stored by earlier versions (\<open>cells?: string[][]\<close> in
  \<open>ensureTableCells\<close>): \<open>None\<close> is a table without the field.
\<close>

record table_shape = base_shape +
  table_x :: real
  table_y :: real
  rows :: real
  cols :: real
  cellWidth :: real
  cellHeight :: real
  table_stroke :: string
  cells :: "string list list option"

datatype shape = Path path_shape | Text text_shape | Table table_shape

fun id_of :: "shape \<Rightarrow> string" where
  "id_of (Path p) = shape_id p"
| "id_of (Text t) = shape_id t"
| "id_of (Table t) = shape_id t"

record history_item =
  item_id :: string
  timestamp :: nat
  user :: string
  description :: string

subsection \<open>Bounds of a shape\<close>

definition DEFAULT_FONT_SIZE :: real where "DEFAULT_FONT_SIZE = 18"



subsection \<open>Normalisation of shapes\<close>

text \<open>
  \<open>Array.from({length: n}, f)\<close> reads the length with \<open>ToLength\<close>: the number is cut
  towards zero to an integer and brought into \<open>[0, 2^53 - 1]\<close>. It then builds the
  array with \<open>new Array\<close>, which raises \<open>RangeError\<close> for a length of \<open>2^32\<close> or more,
  and fills it by calling \<open>f\<close> on the indices in order; an exception of \<open>f\<close> ends the
  construction.
\<close>

datatype error = RangeError

definition ToLength :: "real \<Rightarrow> nat" where
  "ToLength len = (if len \<le> 0 then 0 else min (nat \<lfloor>len\<rfloor>) (2 ^ 53 - 1))"

fun collect :: "(error + 'a) list \<Rightarrow> error + 'a list" where
  "collect [] = Inr []"
| "collect (r # rs) =
     (case r of
        Inl e \<Rightarrow> Inl e
      | Inr v \<Rightarrow> (case collect rs of Inl e \<Rightarrow> Inl e | Inr vs \<Rightarrow> Inr (v # vs)))"

definition arrayFrom :: "real \<Rightarrow> (nat \<Rightarrow> error + 'a) \<Rightarrow> error + 'a list" where
  "arrayFrom len mapFn =
     (if 2 ^ 32 \<le> ToLength len then Inl RangeError
      else collect (map mapFn [0..<ToLength len]))"

text \<open>
  \<open>legacyCells?.[rowIndex] ?? []\<close> and \<open>existingRow[colIndex] ?? ''\<close>: a read past the
  end of an array is \<open>undefined\<close>, which \<open>??\<close> replaces by the default.
\<close>

definition existingRow :: "string list list option \<Rightarrow> nat \<Rightarrow> string list" where
  "existingRow legacyCells rowIndex =
     (case legacyCells of
        None \<Rightarrow> []
      | Some cs \<Rightarrow> if rowIndex < length cs then cs ! rowIndex else [])"

definition cellOrEmpty :: "string list \<Rightarrow> nat \<Rightarrow> string" where
  "cellOrEmpty row colIndex = (if colIndex < length row then row ! colIndex else [])"

definition ensureTableCells :: "table_shape \<Rightarrow> error + table_shape" where
  "ensureTableCells t =
     (case arrayFrom (rows t) (\<lambda>rowIndex.
             arrayFrom (cols t) (\<lambda>colIndex.
               Inr (cellOrEmpty (existingRow (cells t) rowIndex) colIndex))) of
        Inl e \<Rightarrow> Inl e
      | Inr newCells \<Rightarrow> Inr (t\<lparr>cells := Some newCells\<rparr>))"

text \<open>
  \<open>normalizeShape\<close> hands a table to \<open>ensureTableCells\<close>. The operations of the
  following sections are modelled on documents whose tables stay below the limit of
  \<open>new Array\<close>; on a table beyond it the source does not return from the call, and the
  model leaves the table as it is.
\<close>

fun normalizeShape :: "shape \<Rightarrow> shape" where
  "normalizeShape (Table t) =
     (case ensureTableCells t of Inr normalized \<Rightarrow> Table normalized | Inl e \<Rightarrow> Table t)"
| "normalizeShape (Text t) =
     Text (t\<lparr>fontSize := Some (case fontSize t of Some fs \<Rightarrow> fs | None \<Rightarrow> DEFAULT_FONT_SIZE)\<rparr>)"
| "normalizeShape (Path p) = Path p"

definition normalizeShapes :: "shape list \<Rightarrow> shape list" where
  "normalizeShapes ss = map normalizeShape ss"

section \<open>The state of one browser context\<close>

text \<open>
  A snapshot is the object \<open>{shapes, history}\<close> that the stacks hold; the live state
  extends it with the two stacks (\<open>undoStackRef\<close>, \<open>redoStackRef\<close>), the one-shot flag
  \<open>isUndoRedoRef\<close>, and the context's \<open>clientId\<close> and \<open>userName\<close>.

  \<open>shapesRef\<close> and \<open>historyRef\<close> are copied from \<open>shapes\<close> and \<open>history\<close> after every
  render, so at the start of an event they hold the same lists and one field stands for
  both. Inside one event the code reads the refs before its first \<open>setShapes\<close> or
  \<open>setHistory\<close>, and React applies the queued updates in the order of the calls, which is
  the order the model threads the state in. The flags \<open>canUndo\<close> and \<open>canRedo\<close> only
  enable two buttons and are left out.
\<close>

record document =
  shapes :: "shape list"
  history :: "history_item list"

record state = document +
  undoStack :: "document list"
  redoStack :: "document list"
  isUndoRedo :: bool
  clientId :: string
  userName :: string

datatype channel_message =
    Add_shape shape history_item string
  | Clear_board history_item string
  | Sync_request string
  | Sync_state "shape list" "history_item list" string
  | Update_shape shape history_item string
  | Delete_shape string history_item string
  | Undo_redo "shape list" "history_item list" string

fun senderId :: "channel_message \<Rightarrow> string" where
  "senderId (Add_shape _ _ s) = s"
| "senderId (Clear_board _ s) = s"
| "senderId (Sync_request s) = s"
| "senderId (Sync_state _ _ s) = s"
| "senderId (Update_shape _ _ s) = s"
| "senderId (Delete_shape _ _ s) = s"
| "senderId (Undo_redo _ _ s) = s"

definition snapshot :: "state \<Rightarrow> document" where
  "snapshot st = \<lparr>shapes = shapes st, history = history st\<rparr>"

subsection \<open>Messages from the channel\<close>

text \<open>
  \<open>handleMessage\<close> returns the new state and the messages it posts. \<open>None\<close> is a falsy
  \<open>event.data\<close>.
\<close>

fun apply_remote :: "channel_message \<Rightarrow> state \<Rightarrow> state \<times> channel_message list" where
  "apply_remote (Add_shape s h _) st =
     (st\<lparr>shapes := shapes st @ [normalizeShape s], history := h # history st\<rparr>, [])"
| "apply_remote (Clear_board h _) st =
     (st\<lparr>shapes := [], history := h # history st\<rparr>, [])"
| "apply_remote (Update_shape s h _) st =
     (st\<lparr>shapes := map (\<lambda>x. if id_of x = id_of s then normalizeShape s else x) (shapes st),
         history := h # history st\<rparr>, [])"
| "apply_remote (Delete_shape sid h _) st =
     (st\<lparr>shapes := filter (\<lambda>x. id_of x \<noteq> sid) (shapes st), history := h # history st\<rparr>, [])"
| "apply_remote (Sync_request _) st =
     (if shapes st = [] \<and> history st = [] then (st, [])
      else (st, [Sync_state (shapes st) (history st) (clientId st)]))"
| "apply_remote (Sync_state ss hs _) st =
     (st\<lparr>shapes := normalizeShapes ss, history := hs\<rparr>, [])"
| "apply_remote (Undo_redo ss hs _) st =
     (st\<lparr>isUndoRedo := True, shapes := normalizeShapes ss, history := hs\<rparr>, [])"

definition handleMessage :: "channel_message option \<Rightarrow> state \<Rightarrow> state \<times> channel_message list" where
  "handleMessage payload st =
     (case payload of
        None \<Rightarrow> (st, [])
      | Some m \<Rightarrow> if senderId m = clientId st then (st, []) else apply_remote m st)"

subsection \<open>Undo, redo and the activity log\<close>

text \<open>\<open>xs.slice(-50)\<close>: the last 50 elements, all of them when there are fewer.\<close>

definition slice_last :: "nat \<Rightarrow> 'a list \<Rightarrow> 'a list" where
  "slice_last n xs = drop (length xs - n) xs"

definition saveStateForUndo :: "state \<Rightarrow> state" where
  "saveStateForUndo st =
     (if isUndoRedo st then st\<lparr>isUndoRedo := False\<rparr>
      else st\<lparr>undoStack := slice_last 50 (undoStack st @ [snapshot st]), redoStack := []\<rparr>)"

definition pushHistory ::
  "string \<Rightarrow> string option \<Rightarrow> string \<Rightarrow> nat \<Rightarrow> state \<Rightarrow> history_item \<times> state" where
  "pushHistory descr userOverride rid now st =
     (let entry = \<lparr>item_id = rid, timestamp = now,
                   user = (case userOverride of Some u \<Rightarrow> u | None \<Rightarrow> userName st),
                   description = descr\<rparr>
      in (entry, st\<lparr>history := take 250 (entry # history st)\<rparr>))"

definition performUndo :: "string \<Rightarrow> nat \<Rightarrow> state \<Rightarrow> state \<times> channel_message list" where
  "performUndo rid now st =
     (if undoStack st = [] then (st, [])
      else
        let previousState = last (undoStack st);
            st1 = st\<lparr>undoStack := butlast (undoStack st),
                     redoStack := redoStack st @ [snapshot st],
                     isUndoRedo := True,
                     shapes := shapes previousState,
                     history := history previousState\<rparr>;
            (entry, st2) = pushHistory (userName st @ '' undid last action'') None rid now st1
        in (st2, [Undo_redo (shapes previousState) (history previousState) (clientId st)]))"

definition performRedo :: "string \<Rightarrow> nat \<Rightarrow> state \<Rightarrow> state \<times> channel_message list" where
  "performRedo rid now st =
     (if redoStack st = [] then (st, [])
      else
        let nextState = last (redoStack st);
            st1 = st\<lparr>redoStack := butlast (redoStack st),
                     undoStack := undoStack st @ [snapshot st],
                     isUndoRedo := True,
                     shapes := shapes nextState,
                     history := history nextState\<rparr>;
            (entry, st2) = pushHistory (userName st @ '' redid last action'') None rid now st1
        in (st2, [Undo_redo (shapes nextState) (history nextState) (clientId st)]))"

subsection \<open>Local mutations\<close>

definition commitShape ::
  "shape \<Rightarrow> string \<Rightarrow> string \<Rightarrow> nat \<Rightarrow> state \<Rightarrow> state \<times> channel_message list" where
  "commitShape s descr rid now st =
     (let st1 = saveStateForUndo st;
          (historyEntry, st2) = pushHistory descr None rid now st1;
          normalizedShape = normalizeShape s
      in (st2\<lparr>shapes := shapes st2 @ [normalizedShape]\<rparr>,
          [Add_shape normalizedShape historyEntry (clientId st)]))"

definition applyShapeUpdate ::
  "shape \<Rightarrow> string \<Rightarrow> bool \<Rightarrow> string \<Rightarrow> nat \<Rightarrow> state \<Rightarrow> state \<times> channel_message list" where
  "applyShapeUpdate updatedShape descr skipUndoSnapshot rid now st =
     (let st1 = (if \<not> skipUndoSnapshot then saveStateForUndo st else st);
          normalizedShape = normalizeShape updatedShape;
          (historyEntry, st2) = pushHistory descr None rid now st1
      in (st2\<lparr>shapes := map (\<lambda>x. if id_of x = id_of normalizedShape then normalizedShape else x)
                             (shapes st2)\<rparr>,
          [Update_shape normalizedShape historyEntry (clientId st)]))"

definition deleteShape ::
  "string \<Rightarrow> string \<Rightarrow> string \<Rightarrow> nat \<Rightarrow> state \<Rightarrow> state \<times> channel_message list" where
  "deleteShape shapeId descr rid now st =
     (let st1 = saveStateForUndo st;
          st2 = st1\<lparr>shapes := filter (\<lambda>x. id_of x \<noteq> shapeId) (shapes st1)\<rparr>;
          (historyEntry, st3) = pushHistory descr None rid now st2
      in (st3, [Delete_shape shapeId historyEntry (clientId st)]))"

definition clearBoard :: "string \<Rightarrow> nat \<Rightarrow> state \<Rightarrow> state \<times> channel_message list" where
  "clearBoard rid now st =
     (if shapes st = [] then (st, [])
      else
        let st1 = saveStateForUndo st;
            (historyEntry, st2) = pushHistory (userName st @ '' cleared the board'') None rid now st1
        in (st2\<lparr>shapes := []\<rparr>, [Clear_board historyEntry (clientId st)]))"

subsection \<open>Editing a table cell\<close>

text \<open>
  \<open>String.prototype.trim\<close> removes white space and line terminators from both ends; of
  those, the code units below 256 are the ones a \<open>char\<close> can hold.
\<close>

definition isWhiteSpace :: "char \<Rightarrow> bool" where
  "isWhiteSpace c =
     (c \<in> set [CHR 0x09, CHR 0x0A, CHR 0x0B, CHR 0x0C, CHR 0x0D, CHR 0x20, CHR 0xA0])"

definition trim :: "string \<Rightarrow> string" where
  "trim s = rev (dropWhile isWhiteSpace (rev (dropWhile isWhiteSpace s)))"

text \<open>\<open>cells[row]?.[col]\<close>: \<open>None\<close> is \<open>undefined\<close>, which is equal to no string.\<close>

definition cellAt :: "table_shape \<Rightarrow> nat \<Rightarrow> nat \<Rightarrow> string option" where
  "cellAt t row col =
     (case cells t of
        None \<Rightarrow> None
      | Some cs \<Rightarrow>
          if row < length cs \<and> col < length (cs ! row) then Some (cs ! row ! col) else None)"

text \<open>The decimal digits of a number, for the template literals.\<close>

fun decimal :: "nat \<Rightarrow> string" where
  "decimal n =
     (if n < 10 then [char_of (48 + n)]
      else decimal (n div 10) @ [char_of (48 + n mod 10)])"

text \<open>
  \<open>ensureTableCells\<close> is the first call of \<open>updateTableCell\<close>: when it raises, nothing
  has been changed and nothing is sent.
\<close>

definition updateTableCell ::
  "table_shape \<Rightarrow> nat \<Rightarrow> nat \<Rightarrow> string \<Rightarrow> string \<Rightarrow> nat \<Rightarrow> state \<Rightarrow> state \<times> channel_message list" where
  "updateTableCell tableShape row col val rid now st =
     (case ensureTableCells tableShape of
        Inl e \<Rightarrow> (st, [])
      | Inr normalizedTable \<Rightarrow>
          let sanitizedValue = trim val
          in if cellAt normalizedTable row col = Some sanitizedValue then (st, [])
             else
               let updatedCells =
                     map (\<lambda>(rowIndex, cellRow).
                            if rowIndex = row
                            then map (\<lambda>(colIndex, cellValue).
                                        if colIndex = col then sanitizedValue else cellValue)
                                     (enumerate 0 cellRow)
                            else cellRow)
                         (enumerate 0 (case cells normalizedTable of Some cs \<Rightarrow> cs | None \<Rightarrow> []));
                   updatedShape = normalizedTable\<lparr>cells := Some updatedCells\<rparr>
               in applyShapeUpdate (Table updatedShape)
                    (userName st @ '' updated cell R'' @ decimal (row + 1) @ ''C'' @ decimal (col + 1))
                    False rid now st)"

section \<open>Sequences of local events\<close>

text \<open>
  The four mutations of the document store as one type, so that a run of user actions is
  a list; each call comes with the \<open>rid\<close> and \<open>now\<close> it draws.
\<close>

datatype mutation =
    Commit shape string
  | Update shape string bool
  | Delete string string
  | Clear

fun mutate :: "mutation \<Rightarrow> string \<Rightarrow> nat \<Rightarrow> state \<Rightarrow> state \<times> channel_message list" where
  "mutate (Commit s d) rid now st = commitShape s d rid now st"
| "mutate (Update s d skip) rid now st = applyShapeUpdate s d skip rid now st"
| "mutate (Delete sid d) rid now st = deleteShape sid d rid now st"
| "mutate Clear rid now st = clearBoard rid now st"

type_synonym call = "mutation \<times> string \<times> nat"

fun step :: "call \<Rightarrow> state \<Rightarrow> state" where
  "step (m, rid, now) st = fst (mutate m rid now st)"

fun run :: "call list \<Rightarrow> state \<Rightarrow> state" where
  "run [] st = st"
| "run (c # cs) st = run cs (step c st)"

text \<open>The states in which the calls of a run start, oldest first.\<close>

fun pre_states :: "call list \<Rightarrow> state \<Rightarrow> state list" where
  "pre_states [] st = []"
| "pre_states (c # cs) st = st # pre_states cs (step c st)"

text \<open>
  \<open>reaches_save\<close>: the call gets as far as \<open>saveStateForUndo\<close> (not an empty
  \<open>clearBoard\<close>, not an update with \<open>skipUndoSnapshot\<close>). \<open>captures\<close>: it also finds
  the flag down, so that a frame is pushed.
\<close>

fun reaches_save :: "mutation \<Rightarrow> state \<Rightarrow> bool" where
  "reaches_save (Commit _ _) st = True"
| "reaches_save (Update _ _ skip) st = (\<not> skip)"
| "reaches_save (Delete _ _) st = True"
| "reaches_save Clear st = (shapes st \<noteq> [])"

definition captures :: "mutation \<Rightarrow> state \<Rightarrow> bool" where
  "captures m st = (reaches_save m st \<and> \<not> isUndoRedo st)"

fun all_capture :: "call list \<Rightarrow> state \<Rightarrow> bool" where
  "all_capture [] st = True"
| "all_capture (c # cs) st = (captures (fst c) st \<and> all_capture cs (step c st))"

fun run_undos :: "(string \<times> nat) list \<Rightarrow> state \<Rightarrow> state" where
  "run_undos [] st = st"
| "run_undos ((rid, now) # us) st = run_undos us (fst (performUndo rid now st))"

fun run_redos :: "(string \<times> nat) list \<Rightarrow> state \<Rightarrow> state" where
  "run_redos [] st = st"
| "run_redos ((rid, now) # rs) st = run_redos rs (fst (performRedo rid now st))"

definition undid_entry :: "string \<Rightarrow> nat \<Rightarrow> state \<Rightarrow> history_item" where
  "undid_entry rid now st =
     \<lparr>item_id = rid, timestamp = now, user = userName st,
      description = userName st @ '' undid last action''\<rparr>"

section \<open>Example values\<close>

definition peer_entry :: history_item where
  "peer_entry = \<lparr>item_id = ''h1'', timestamp = 7, user = ''Bob'', description = ''Bob drew a stroke (2 pts)''\<rparr>"

definition stroke0 :: shape where
  "stroke0 = Path \<lparr>shape_id = ''s1'', createdBy = ''Ann'', createdAt = 5,
                   points = [\<lparr>point_x = 1, point_y = 2\<rparr>, \<lparr>point_x = 4, point_y = 9\<rparr>],
                   stroke = ''#22d3ee'', strokeWidth = 4\<rparr>"

definition empty_board :: state where
  "empty_board = \<lparr>shapes = [], history = [], undoStack = [], redoStack = [], isUndoRedo = False,
                   clientId = ''tab-A'', userName = ''Ann''\<rparr>"

definition full_log_board :: state where
  "full_log_board = empty_board\<lparr>history := replicate 250 peer_entry\<rparr>"

definition ragged_table :: table_shape where
  "ragged_table = \<lparr>shape_id = ''t1'', createdBy = ''Ann'', createdAt = 6,
                    table_x = 10, table_y = 20, rows = 2, cols = 2, cellWidth = 80, cellHeight = 40,
                    table_stroke = ''#22d3ee'',
                    cells = Some [[''a'', ''b'', ''c'']]\<rparr>"

definition normalized_table :: table_shape where
  "normalized_table = ragged_table\<lparr>cells := Some [[''a'', ''b''], ['''', '''']]\<rparr>"

definition fractional_table :: table_shape where
  "fractional_table = ragged_table\<lparr>rows := 5 / 2\<rparr>"

definition negative_table :: table_shape where
  "negative_table = ragged_table\<lparr>rows := - 1\<rparr>"

definition oversized_table :: table_shape where
  "oversized_table = ragged_table\<lparr>rows := 4294967296\<rparr>"



definition drawn_board :: state where
  "drawn_board = empty_board\<lparr>shapes := [stroke0], history := [peer_entry],
                              undoStack := [\<lparr>shapes = [], history = []\<rparr>]\<rparr>"

definition commit_call :: call where
  "commit_call = (Commit stroke0 ''Ann drew a stroke (2 pts)'', ''h2'', 8)"

definition undone_board :: state where
  "undone_board = fst (performUndo ''h2'' 8 drawn_board)"

section \<open>Auxiliary facts\<close>

lemma ToLength_count: "n < 2 ^ 32 \<Longrightarrow> ToLength (real n) = n"
  by (simp add: ToLength_def)

lemma collect_all_Inr: "collect (map (\<lambda>i. Inr (f i)) xs) = Inr (map f xs)"
  by (induction xs) simp_all

lemma arrayFrom_count:
  "n < 2 ^ 32 \<Longrightarrow> arrayFrom (real n) (\<lambda>i. Inr (f i)) = Inr (map f [0..<n])"
  by (simp add: arrayFrom_def ToLength_count collect_all_Inr)

lemma ensureTableCells_count:
  assumes "rows t = real R" and "cols t = real C" and "R < 2 ^ 32" and "C < 2 ^ 32"
  shows "ensureTableCells t =
           Inr (t\<lparr>cells := Some (map (\<lambda>rowIndex.
                                     map (\<lambda>colIndex. cellOrEmpty (existingRow (cells t) rowIndex) colIndex)
                                         [0..<C])
                                   [0..<R])\<rparr>)"
  using assms by (simp add: ensureTableCells_def arrayFrom_count)

lemma ensureTableCells_ragged_table: "ensureTableCells ragged_table = Inr normalized_table"
proof -
  have "rows ragged_table = real 2" "cols ragged_table = real 2"
    by (simp_all add: ragged_table_def)
  from ensureTableCells_count [OF this] show ?thesis
    by (simp add: normalized_table_def ragged_table_def existingRow_def cellOrEmpty_def upt_rec)
qed

lemma slice_last_short: "length xs \<le> n \<Longrightarrow> slice_last n xs = xs"
  by (simp add: slice_last_def)

lemma length_slice_last: "length (slice_last n xs) = min n (length xs)"
  by (simp add: slice_last_def)

lemma slice_last_absorb: "slice_last n (slice_last n xs @ ys) = slice_last n (xs @ ys)"
  by (cases "length xs \<le> n") (simp_all add: slice_last_def add.commute)

lemma slice_last_keep: "length ys \<le> n \<Longrightarrow> slice_last n (xs @ ys) = slice_last (n - length ys) xs @ ys"
  by (simp add: slice_last_def)

lemma saveStateForUndo_doc [simp]:
  "shapes (saveStateForUndo st) = shapes st"
  "history (saveStateForUndo st) = history st"
  "userName (saveStateForUndo st) = userName st"
  "clientId (saveStateForUndo st) = clientId st"
  "isUndoRedo (saveStateForUndo st) = False"
  by (simp_all add: saveStateForUndo_def)

lemma saveStateForUndo_suppressed:
  "isUndoRedo st \<Longrightarrow> saveStateForUndo st = st\<lparr>isUndoRedo := False\<rparr>"
  by (simp add: saveStateForUndo_def)

lemma saveStateForUndo_push:
  "\<not> isUndoRedo st \<Longrightarrow>
     undoStack (saveStateForUndo st) = slice_last 50 (undoStack st @ [snapshot st]) \<and>
     redoStack (saveStateForUndo st) = []"
  by (simp add: saveStateForUndo_def)

lemma pushHistory_fields [simp]:
  "shapes (snd (pushHistory d uo rid now st)) = shapes st"
  "history (snd (pushHistory d uo rid now st)) = take 250 (fst (pushHistory d uo rid now st) # history st)"
  "undoStack (snd (pushHistory d uo rid now st)) = undoStack st"
  "redoStack (snd (pushHistory d uo rid now st)) = redoStack st"
  "isUndoRedo (snd (pushHistory d uo rid now st)) = isUndoRedo st"
  "userName (snd (pushHistory d uo rid now st)) = userName st"
  "clientId (snd (pushHistory d uo rid now st)) = clientId st"
  by (simp_all add: pushHistory_def Let_def)

lemma mutate_stacks:
  "reaches_save m st \<Longrightarrow>
     undoStack (fst (mutate m rid now st)) = undoStack (saveStateForUndo st) \<and>
     redoStack (fst (mutate m rid now st)) = redoStack (saveStateForUndo st) \<and>
     isUndoRedo (fst (mutate m rid now st)) = False"
  by (cases m)
     (simp_all add: commitShape_def applyShapeUpdate_def deleteShape_def clearBoard_def
        Let_def split_def)

lemma mutate_userName: "userName (fst (mutate m rid now st)) = userName st"
  by (cases m)
     (simp_all add: commitShape_def applyShapeUpdate_def deleteShape_def clearBoard_def
        Let_def split_def)

lemma step_userName: "userName (step c st) = userName st"
  by (cases c) (simp add: mutate_userName)

lemma run_userName: "userName (run cs st) = userName st"
  by (induction cs arbitrary: st) (simp_all add: step_userName)

lemma step_captures:
  assumes "captures (fst c) st"
  shows "undoStack (step c st) = slice_last 50 (undoStack st @ [snapshot st])"
    and "redoStack (step c st) = []"
    and "\<not> isUndoRedo (step c st)"
  using assms mutate_stacks [of "fst c" st "fst (snd c)" "snd (snd c)"] saveStateForUndo_push [of st]
  by (cases c, simp add: captures_def)+

lemma length_pre_states: "length (pre_states cs st) = length cs"
  by (induction cs arbitrary: st) simp_all

lemma run_undoStack_sliced:
  "all_capture cs st \<Longrightarrow>
     slice_last 50 (undoStack (run cs st)) =
     slice_last 50 (undoStack st @ map snapshot (pre_states cs st))"
proof (induction cs arbitrary: st)
  case Nil
  then show ?case by simp
next
  case (Cons c cs)
  then have cap: "captures (fst c) st" and rest: "all_capture cs (step c st)"
    by simp_all
  have "slice_last 50 (undoStack (run (c # cs) st)) =
          slice_last 50 (undoStack (step c st) @ map snapshot (pre_states cs (step c st)))"
    using Cons.IH [OF rest] by simp
  also have "\<dots> = slice_last 50 ((undoStack st @ [snapshot st]) @ map snapshot (pre_states cs (step c st)))"
    by (simp only: step_captures(1) [OF cap] slice_last_absorb)
  finally show ?case by simp
qed

lemma run_undoStack_bounded:
  "cs \<noteq> [] \<Longrightarrow> all_capture cs st \<Longrightarrow> length (undoStack (run cs st)) \<le> 50"
proof (induction cs arbitrary: st)
  case Nil
  then show ?case by simp
next
  case (Cons c cs)
  show ?case
  proof (cases cs)
    case Nil
    with Cons.prems show ?thesis
      by (simp add: step_captures(1) length_slice_last del: step.simps)
  next
    case (Cons d ds)
    with Cons.IH [of "step c st"] Cons.prems show ?thesis
      by simp
  qed
qed

lemma run_undoStack:
  assumes "cs \<noteq> []" and "all_capture cs st"
  shows "undoStack (run cs st) = slice_last 50 (undoStack st @ map snapshot (pre_states cs st))"
  using run_undoStack_sliced [OF assms(2)] run_undoStack_bounded [OF assms]
  by (simp add: slice_last_short)

subsection \<open>Unwinding a stack by repeated undo or redo\<close>

lemma performUndo_fields:
  assumes "undoStack st \<noteq> []"
  shows "shapes (fst (performUndo rid now st)) = shapes (last (undoStack st))"
    and "history (fst (performUndo rid now st)) =
           take 250 (undid_entry rid now st # history (last (undoStack st)))"
    and "undoStack (fst (performUndo rid now st)) = butlast (undoStack st)"
    and "redoStack (fst (performUndo rid now st)) = redoStack st @ [snapshot st]"
    and "isUndoRedo (fst (performUndo rid now st))"
    and "userName (fst (performUndo rid now st)) = userName st"
    and "clientId (fst (performUndo rid now st)) = clientId st"
  using assms
  by (simp_all add: performUndo_def Let_def split_def pushHistory_def undid_entry_def)

lemma performRedo_fields:
  assumes "redoStack st \<noteq> []"
  shows "shapes (fst (performRedo rid now st)) = shapes (last (redoStack st))"
    and "redoStack (fst (performRedo rid now st)) = butlast (redoStack st)"
    and "undoStack (fst (performRedo rid now st)) = undoStack st @ [snapshot st]"
    and "isUndoRedo (fst (performRedo rid now st))"
    and "userName (fst (performRedo rid now st)) = userName st"
  using assms
  by (simp_all add: performRedo_def Let_def split_def pushHistory_def)

lemma run_undos_unwind:
  "undoStack st = w @ fs \<Longrightarrow> length us = length fs \<Longrightarrow> us \<noteq> [] \<Longrightarrow>
     shapes (run_undos us st) = shapes (hd fs) \<and>
     history (run_undos us st) =
       take 250 (undid_entry (fst (last us)) (snd (last us)) st # history (hd fs)) \<and>
     undoStack (run_undos us st) = w \<and>
     (\<exists>rest. redoStack (run_undos us st) = redoStack st @ snapshot st # rest \<and>
             length rest = length us - 1)"
proof (induction us arbitrary: st fs)
  case Nil
  then show ?case by simp
next
  case (Cons u us)
  obtain rid now where u: "u = (rid, now)" by (cases u)
  let ?st1 = "fst (performUndo rid now st)"
  from Cons.prems have fs: "fs \<noteq> []" by auto
  with Cons.prems have ne: "undoStack st \<noteq> []" by simp
  note f = performUndo_fields [OF ne, of rid now]
  from fs Cons.prems have lst: "last (undoStack st) = last fs"
    and bl: "butlast (undoStack st) = w @ butlast fs"
    by (simp_all add: butlast_append)
  show ?case
  proof (cases us)
    case Nil
    with Cons.prems have "fs = [hd fs]" by (cases fs) simp_all
    then have "last fs = hd fs" "butlast fs = []"
      by (metis last.simps, metis butlast.simps(2))
    with Nil u f lst bl show ?thesis by simp
  next
    case (Cons v vs)
    with Cons.prems have len: "length us = length (butlast fs)" by simp
    from Cons Cons.prems have "2 \<le> length fs" by simp
    then have hd: "hd (butlast fs) = hd fs"
      by (cases fs) (auto split: if_splits)
    from Cons have usne: "us \<noteq> []" by simp
    have st1: "undoStack ?st1 = w @ butlast fs" using f(3) bl by simp
    from Cons.IH [OF st1 len usne] obtain rest where
      A: "shapes (run_undos us ?st1) = shapes (hd fs)"
      and B: "history (run_undos us ?st1) =
               take 250 (undid_entry (fst (last us)) (snd (last us)) ?st1 # history (hd fs))"
      and C: "undoStack (run_undos us ?st1) = w"
      and D: "redoStack (run_undos us ?st1) = redoStack ?st1 @ snapshot ?st1 # rest"
      and E: "length rest = length us - 1"
      using hd by auto
    have un: "undid_entry (fst (last us)) (snd (last us)) ?st1 =
              undid_entry (fst (last (u # us))) (snd (last (u # us))) st"
      using usne f(6) by (simp add: undid_entry_def)
    have "redoStack (run_undos (u # us) st) = redoStack st @ snapshot st # (snapshot ?st1 # rest)"
      using D f(4) u by simp
    moreover have "length (snapshot ?st1 # rest) = length (u # us) - 1"
      using E usne by (cases us) simp_all
    ultimately show ?thesis
      using A B C un u by (simp del: last.simps)
  qed
qed

lemma run_redos_unwind:
  "redoStack st = w @ gs \<Longrightarrow> length rs = length gs \<Longrightarrow> rs \<noteq> [] \<Longrightarrow>
     shapes (run_redos rs st) = shapes (hd gs)"
proof (induction rs arbitrary: st gs)
  case Nil
  then show ?case by simp
next
  case (Cons r rs)
  obtain rid now where r: "r = (rid, now)" by (cases r)
  let ?st1 = "fst (performRedo rid now st)"
  from Cons.prems have gs: "gs \<noteq> []" by auto
  with Cons.prems have ne: "redoStack st \<noteq> []" by simp
  note f = performRedo_fields [OF ne, of rid now]
  from gs Cons.prems have lst: "last (redoStack st) = last gs"
    and bl: "butlast (redoStack st) = w @ butlast gs"
    by (simp_all add: butlast_append)
  show ?case
  proof (cases rs)
    case Nil
    with Cons.prems have "gs = [hd gs]" by (cases gs) simp_all
    then have "last gs = hd gs"
      by (metis last.simps)
    with Nil r f lst show ?thesis by simp
  next
    case (Cons v vs)
    with Cons.prems have len: "length rs = length (butlast gs)" by simp
    from Cons Cons.prems have "2 \<le> length gs" by simp
    then have hd: "hd (butlast gs) = hd gs"
      by (cases gs) (auto split: if_splits)
    from Cons have rsne: "rs \<noteq> []" by simp
    have st1: "redoStack ?st1 = w @ butlast gs" using f(2) bl by simp
    from Cons.IH [OF st1 len rsne] hd r show ?thesis by simp
  qed
qed

lemma all_capture_take: "all_capture cs st \<Longrightarrow> all_capture (take k cs) st"
proof (induction cs arbitrary: st k)
  case Nil
  then show ?case by simp
next
  case (Cons c cs)
  then show ?case by (cases k) simp_all
qed

lemma pre_states_take: "pre_states (take k cs) st = take k (pre_states cs st)"
proof (induction cs arbitrary: st k)
  case Nil
  then show ?case by simp
next
  case (Cons c cs)
  then show ?case by (cases k) simp_all
qed

lemma all_capture_replicate_commit:
  "\<not> isUndoRedo st \<Longrightarrow> all_capture (replicate n (Commit s d, rid, now)) st"
proof (induction n arbitrary: st)
  case 0
  then show ?case by simp
next
  case (Suc n)
  have cap: "captures (fst (Commit s d, rid, now)) st"
    using Suc.prems by (simp add: captures_def)
  from step_captures(3) [OF cap] Suc.IH cap show ?case
    by (simp del: step.simps)
qed

lemma run_undos_append: "run_undos (us @ vs) st = run_undos vs (run_undos us st)"
  by (induction us arbitrary: st) auto

lemma overflow_undo:
  assumes "all_capture cs st" and "undoStack st = []" and "length cs = 51" and "length us = 50"
  shows "shapes (run_undos (us @ [u]) (run cs st)) = shapes (step (hd cs) st)"
proof -
  obtain c cs' where cs: "cs = c # cs'" using assms(3) by (cases cs) auto
  with assms(3) have len': "length cs' = 50" by simp
  then have ne': "cs' \<noteq> []" by auto
  have ne: "cs \<noteq> []" using cs by simp
  let ?S = "run cs st"
  let ?fs = "map snapshot (pre_states cs' (step c st))"
  have stack: "undoStack ?S = [] @ ?fs"
    using run_undoStack [OF ne assms(1)] assms(2) cs len'
    by (simp add: slice_last_def length_pre_states)
  have usne: "us \<noteq> []" using assms(4) by auto
  have "length us = length ?fs" using assms(4) len' by (simp add: length_pre_states)
  from run_undos_unwind [OF stack this usne]
  have A: "shapes (run_undos us ?S) = shapes (hd ?fs)" and C: "undoStack (run_undos us ?S) = []"
    by auto
  have "hd ?fs = snapshot (step c st)"
    using ne' by (cases cs') simp_all
  then have "shapes (run_undos us ?S) = shapes (step c st)"
    using A by (simp add: snapshot_def)
  moreover have "run_undos [u] (run_undos us ?S) = run_undos us ?S"
    using C by (cases u) (simp add: performUndo_def)
  ultimately show ?thesis
    using cs by (simp add: run_undos_append)
qed

section \<open>The peer channel\<close>

text \<open>
  Claim C7. A message whose \<open>senderId\<close> is the receiving context's own \<open>clientId\<close>
  changes nothing, whatever its kind: shapes, history, both stacks and the flag stay as
  they are, and nothing is posted in reply.
\<close>

theorem handleMessage_ignores_own_messages:
  "senderId m = clientId st \<Longrightarrow> handleMessage (Some m) st = (st, [])"
  by (simp add: handleMessage_def)

theorem handleMessage_ignores_own_messages_witness:
  "senderId (Undo_redo [stroke0] [peer_entry] ''tab-A'') = clientId empty_board \<and>
   handleMessage (Some (Undo_redo [stroke0] [peer_entry] ''tab-A'')) empty_board = (empty_board, [])"
  using handleMessage_ignores_own_messages [of "Undo_redo [stroke0] [peer_entry] ''tab-A''" empty_board]
  by (simp add: empty_board_def)



section \<open>Table grids\<close>

text \<open>
  Claim C8, for counts. When \<open>rows\<close> and \<open>cols\<close> of a table are non-negative integers
  \<open>R\<close> and \<open>C\<close> below \<open>2^32\<close>, then whatever its \<open>cells\<close> are (missing, ragged, too
  short, too long), \<open>ensureTableCells\<close> returns the table with a grid of exactly \<open>R\<close>
  rows of exactly \<open>C\<close> cells each and with every other field as it was; a cell that
  existed at a position inside the grid keeps its content, every other position holds
  the empty string.
\<close>

theorem ensureTableCells_grid:
  assumes "rows t = real R" and "cols t = real C" and "R < 2 ^ 32" and "C < 2 ^ 32"
  shows "\<exists>g. ensureTableCells t = Inr (t\<lparr>cells := Some g\<rparr>) \<and>
             length g = R \<and>
             (\<forall>row \<in> set g. length row = C) \<and>
             (\<forall>r < R. \<forall>c < C.
                g ! r ! c = (case cellAt t r c of Some v \<Rightarrow> v | None \<Rightarrow> ''''))"
proof -
  let ?g = "map (\<lambda>rowIndex.
                   map (\<lambda>colIndex. cellOrEmpty (existingRow (cells t) rowIndex) colIndex) [0..<C])
                [0..<R]"
  have "ensureTableCells t = Inr (t\<lparr>cells := Some ?g\<rparr>)"
    by (rule ensureTableCells_count [OF assms])
  moreover have "length ?g = R" by simp
  moreover have "\<forall>row \<in> set ?g. length row = C" by auto
  moreover have "\<forall>r < R. \<forall>c < C.
                   ?g ! r ! c = (case cellAt t r c of Some v \<Rightarrow> v | None \<Rightarrow> '''')"
    by (auto simp add: cellAt_def existingRow_def cellOrEmpty_def split: option.splits)
  ultimately show ?thesis by blast
qed

theorem ensureTableCells_grid_witness:
  "rows ragged_table = real 2 \<and> cols ragged_table = real 2 \<and>
   ensureTableCells ragged_table =
     Inr (ragged_table\<lparr>cells := Some [[''a'', ''b''], ['''', '''']]\<rparr>) \<and>
   (\<exists>g. ensureTableCells ragged_table = Inr (ragged_table\<lparr>cells := Some g\<rparr>) \<and>
        length g = 2 \<and>
        (\<forall>row \<in> set g. length row = 2) \<and>
        (\<forall>r < 2. \<forall>c < 2.
           g ! r ! c = (case cellAt ragged_table r c of Some v \<Rightarrow> v | None \<Rightarrow> '''')))"
proof -
  have a: "rows ragged_table = real 2" "cols ragged_table = real 2"
    by (simp_all add: ragged_table_def)
  have b: "(2::nat) < 2 ^ 32" by simp
  have c: "ensureTableCells ragged_table =
             Inr (ragged_table\<lparr>cells := Some [[''a'', ''b''], ['''', '''']]\<rparr>)"
    by (simp add: ensureTableCells_ragged_table normalized_table_def)
  show ?thesis
    using a c ensureTableCells_grid [OF a b b] by simp
qed

text \<open>
  The table tool clamps the number the user types to \<open>[1, 12]\<close> without rounding it, so
  \<open>2.5\<close> gives a table with \<open>rows = 2.5\<close>; its grid gets two rows. A table with
  \<open>rows = -1\<close> gets the empty grid, and for \<open>rows = 2^32 = 4294967296\<close> the call raises
  \<open>RangeError\<close> and returns no table.
\<close>

theorem ensureTableCells_fractional_rows_counterexample:
  "rows fractional_table = 5 / 2 \<and>
   ensureTableCells fractional_table =
     Inr (fractional_table\<lparr>cells := Some [[''a'', ''b''], ['''', '''']]\<rparr>) \<and>
   real (length [[''a'', ''b''], ['''', '''' :: string]]) \<noteq> rows fractional_table \<and>
   rows negative_table = - 1 \<and>
   ensureTableCells negative_table = Inr (negative_table\<lparr>cells := Some []\<rparr>) \<and>
   rows oversized_table = 4294967296 \<and>
   ensureTableCells oversized_table = Inl RangeError"
proof -
  have a: "ensureTableCells fractional_table =
             Inr (fractional_table\<lparr>cells := Some [[''a'', ''b''], ['''', '''']]\<rparr>)"
    by (simp add: fractional_table_def ragged_table_def ensureTableCells_def arrayFrom_def
          ToLength_def existingRow_def cellOrEmpty_def upt_rec)
  have b: "ensureTableCells negative_table = Inr (negative_table\<lparr>cells := Some []\<rparr>)"
    by (simp add: negative_table_def ragged_table_def ensureTableCells_def arrayFrom_def
          ToLength_def)
  have c: "ensureTableCells oversized_table = Inl RangeError"
    by (simp add: oversized_table_def ragged_table_def ensureTableCells_def arrayFrom_def
          ToLength_def)
  show ?thesis
    using a b c
    by (simp add: fractional_table_def negative_table_def oversized_table_def ragged_table_def)
qed

section \<open>Guarded calls\<close>

text \<open>
  Claim C6. \<open>clearBoard\<close> on an empty shape list, \<open>performUndo\<close> on an empty undo stack,
  \<open>performRedo\<close> on an empty redo stack, and \<open>updateTableCell\<close> with a value whose
  trimmed form is already in the addressed cell of the normalised table each return
  the state they were given (shapes, history, both stacks, flag) and broadcast nothing.
\<close>

theorem guarded_calls_are_noops:
  "(shapes st = [] \<longrightarrow> clearBoard rid now st = (st, [])) \<and>
   (undoStack st = [] \<longrightarrow> performUndo rid now st = (st, [])) \<and>
   (redoStack st = [] \<longrightarrow> performRedo rid now st = (st, [])) \<and>
   (ensureTableCells t = Inr normalizedTable \<and>
    cellAt normalizedTable row col = Some (trim v) \<longrightarrow>
      updateTableCell t row col v rid now st = (st, []))"
  by (simp add: clearBoard_def performUndo_def performRedo_def updateTableCell_def Let_def)

theorem guarded_calls_are_noops_witness:
  "shapes empty_board = [] \<and> clearBoard ''r'' 9 empty_board = (empty_board, []) \<and>
   undoStack empty_board = [] \<and> performUndo ''r'' 9 empty_board = (empty_board, []) \<and>
   redoStack empty_board = [] \<and> performRedo ''r'' 9 empty_board = (empty_board, []) \<and>
   ensureTableCells ragged_table = Inr normalized_table \<and>
   cellAt normalized_table 0 1 = Some (trim '' b '') \<and>
   updateTableCell ragged_table 0 1 '' b '' ''r'' 9 empty_board = (empty_board, [])"
proof -
  have a: "shapes empty_board = []" "undoStack empty_board = []" "redoStack empty_board = []"
    by (simp_all add: empty_board_def)
  have b: "cellAt normalized_table 0 1 = Some (trim '' b '')"
    by (simp add: cellAt_def normalized_table_def trim_def isWhiteSpace_def)
  show ?thesis
    using a b ensureTableCells_ragged_table
      guarded_calls_are_noops [of empty_board "''r''" 9 ragged_table normalized_table 0 1 "'' b ''"]
    by simp
qed

text \<open>
  Claim C4. Every operation that adds an entry to the history puts it at the head, and
  the list never grows beyond 250 entries, also when the entry arrives with an
  \<open>add-shape\<close>, \<open>update-shape\<close>, \<open>delete-shape\<close> or \<open>clear-board\<close> message of a peer.
  \<open>pushHistory\<close> cuts the list to 250; the message handler prepends the carried entry
  and cuts nothing: on a log that holds 250 entries, an \<open>add-shape\<close> message leaves 251.
\<close>

theorem handleMessage_add_shape_exceeds_log_bound:
  "length (history full_log_board) = 250 \<and>
   length (history (fst (handleMessage (Some (Add_shape stroke0 peer_entry ''tab-B''))
                           full_log_board))) = 251 \<and>
   length (history (fst (handleMessage (Some (Update_shape stroke0 peer_entry ''tab-B''))
                           full_log_board))) = 251 \<and>
   length (history (fst (handleMessage (Some (Delete_shape ''s1'' peer_entry ''tab-B''))
                           full_log_board))) = 251 \<and>
   length (history (fst (handleMessage (Some (Clear_board peer_entry ''tab-B''))
                           full_log_board))) = 251"
  by (simp add: full_log_board_def empty_board_def handleMessage_def)

section \<open>Undo, redo and the suppression flag\<close>

text \<open>
  Claim C1, as the code has it. An \<open>undo-redo\<close> message of a peer raises the flag. The
  next local mutation that reaches \<open>saveStateForUndo\<close> pushes no frame: both stacks are
  what they were before the message, and the flag is down again. Only the mutation after
  that one pushes a frame, and the frame holds the document the first mutation left.
\<close>

theorem remote_undo_redo_suppresses_next_capture:
  assumes "sender \<noteq> clientId st"
    and "st1 = fst (handleMessage (Some (Undo_redo ss hs sender)) st)"
    and "reaches_save m st1"
    and "st2 = fst (mutate m rid now st1)"
  shows "isUndoRedo st1 \<and> undoStack st2 = undoStack st \<and> redoStack st2 = redoStack st \<and>
         \<not> isUndoRedo st2 \<and>
         (reaches_save m' st2 \<longrightarrow>
            undoStack (fst (mutate m' rid' now' st2)) =
              slice_last 50 (undoStack st @ [snapshot st2]))"
proof -
  from assms(1,2) have st1: "st1 = st\<lparr>isUndoRedo := True, shapes := normalizeShapes ss, history := hs\<rparr>"
    by (simp add: handleMessage_def)
  then have flag: "isUndoRedo st1" by simp
  from mutate_stacks [OF assms(3), of rid now] assms(4) saveStateForUndo_suppressed [OF flag] st1
  have st2: "undoStack st2 = undoStack st" "redoStack st2 = redoStack st" "\<not> isUndoRedo st2"
    by simp_all
  have "reaches_save m' st2 \<Longrightarrow>
          undoStack (fst (mutate m' rid' now' st2)) = slice_last 50 (undoStack st @ [snapshot st2])"
    using mutate_stacks [of m' st2 rid' now'] saveStateForUndo_push [OF st2(3)] st2(1) by simp
  with flag st2 show ?thesis by simp
qed

theorem remote_undo_redo_suppresses_next_capture_witness:
  "''tab-B'' \<noteq> clientId drawn_board \<and>
   reaches_save (Delete ''s1'' ''Ann erased a stroke'')
     (fst (handleMessage (Some (Undo_redo [] [peer_entry] ''tab-B'')) drawn_board)) \<and>
   undoStack (fst (mutate (Delete ''s1'' ''Ann erased a stroke'') ''h2'' 8
     (fst (handleMessage (Some (Undo_redo [] [peer_entry] ''tab-B'')) drawn_board)))) =
     [\<lparr>shapes = [], history = []\<rparr>] \<and>
   \<not> isUndoRedo (fst (mutate (Delete ''s1'' ''Ann erased a stroke'') ''h2'' 8
     (fst (handleMessage (Some (Undo_redo [] [peer_entry] ''tab-B'')) drawn_board))))"
proof -
  have a: "''tab-B'' \<noteq> clientId drawn_board"
    by (simp add: drawn_board_def empty_board_def)
  have b: "reaches_save (Delete ''s1'' ''Ann erased a stroke'')
     (fst (handleMessage (Some (Undo_redo [] [peer_entry] ''tab-B'')) drawn_board))"
    by simp
  have c: "undoStack drawn_board = [\<lparr>shapes = [], history = []\<rparr>]"
    by (simp add: drawn_board_def)
  show ?thesis
    using a b c remote_undo_redo_suppresses_next_capture [OF a refl b refl]
    by simp
qed

text \<open>
  On an empty board, a peer's \<open>undo-redo\<close> followed by one \<open>commitShape\<close> leaves the
  undo stack empty: no frame has been pushed for the commit.
\<close>

theorem remote_undo_redo_then_commit_counterexample:
  "undoStack (fst (commitShape stroke0 ''Ann drew a stroke (2 pts)'' ''h2'' 8
      (fst (handleMessage (Some (Undo_redo [] [] ''tab-B'')) empty_board)))) = [] \<and>
   undoStack (fst (handleMessage (Some (Undo_redo [] [] ''tab-B'')) empty_board)) = []"
  by (simp add: empty_board_def handleMessage_def commitShape_def saveStateForUndo_def
        pushHistory_def Let_def)

text \<open>
  Claim C3. A \<open>performUndo\<close> or \<open>performRedo\<close> that finds its stack non-empty raises the
  flag as well. The first local mutation after it that reaches \<open>saveStateForUndo\<close>
  (\<open>commitShape\<close>, \<open>applyShapeUpdate\<close> without \<open>skipUndoSnapshot\<close>, \<open>deleteShape\<close>,
  \<open>clearBoard\<close> on a board with shapes) pushes no frame and keeps the redo stack, and
  lowers the flag; the capture of the mutation after it is no longer skipped.
\<close>

theorem local_undo_redo_suppresses_next_capture:
  assumes "undoStack st \<noteq> [] \<and> st1 = fst (performUndo rid now st) \<or>
           redoStack st \<noteq> [] \<and> st1 = fst (performRedo rid now st)"
    and "reaches_save m st1"
    and "st2 = fst (mutate m rid' now' st1)"
  shows "isUndoRedo st1 \<and> undoStack st2 = undoStack st1 \<and> redoStack st2 = redoStack st1 \<and>
         \<not> isUndoRedo st2 \<and>
         (reaches_save m' st2 \<longrightarrow>
            undoStack (fst (mutate m' rid'' now'' st2)) =
              slice_last 50 (undoStack st1 @ [snapshot st2]))"
proof -
  from assms(1) have flag: "isUndoRedo st1"
    using performUndo_fields(5) performRedo_fields(4) by blast
  from mutate_stacks [OF assms(2), of rid' now'] assms(3) saveStateForUndo_suppressed [OF flag]
  have st2: "undoStack st2 = undoStack st1" "redoStack st2 = redoStack st1" "\<not> isUndoRedo st2"
    by simp_all
  have "reaches_save m' st2 \<Longrightarrow>
          undoStack (fst (mutate m' rid'' now'' st2)) = slice_last 50 (undoStack st1 @ [snapshot st2])"
    using mutate_stacks [of m' st2 rid'' now''] saveStateForUndo_push [OF st2(3)] st2(1) by simp
  with flag st2 show ?thesis by simp
qed

theorem local_undo_redo_suppresses_next_capture_witness:
  "undoStack drawn_board \<noteq> [] \<and>
   isUndoRedo undone_board \<and>
   undoStack undone_board = [] \<and>
   redoStack undone_board = [\<lparr>shapes = [stroke0], history = [peer_entry]\<rparr>] \<and>
   undoStack (fst (mutate (Commit stroke0 ''Ann drew a stroke (2 pts)'') ''h3'' 9 undone_board)) = [] \<and>
   redoStack (fst (mutate (Commit stroke0 ''Ann drew a stroke (2 pts)'') ''h3'' 9 undone_board)) =
     [\<lparr>shapes = [stroke0], history = [peer_entry]\<rparr>] \<and>
   \<not> isUndoRedo (fst (mutate (Commit stroke0 ''Ann drew a stroke (2 pts)'') ''h3'' 9 undone_board)) \<and>
   redoStack undone_board \<noteq> [] \<and>
   isUndoRedo (fst (performRedo ''h3'' 9 undone_board)) \<and>
   undoStack (fst (mutate (Delete ''s1'' ''Ann erased a stroke'') ''h4'' 10
      (fst (performRedo ''h3'' 9 undone_board)))) =
     undoStack (fst (performRedo ''h3'' 9 undone_board)) \<and>
   redoStack (fst (mutate (Delete ''s1'' ''Ann erased a stroke'') ''h4'' 10
      (fst (performRedo ''h3'' 9 undone_board)))) = [] \<and>
   \<not> isUndoRedo (fst (mutate (Delete ''s1'' ''Ann erased a stroke'') ''h4'' 10
      (fst (performRedo ''h3'' 9 undone_board))))"
proof -
  have a: "undoStack drawn_board \<noteq> []"
    by (simp add: drawn_board_def)
  have b: "reaches_save (Commit stroke0 ''Ann drew a stroke (2 pts)'') undone_board"
    by simp
  have c: "undoStack undone_board = []"
    "redoStack undone_board = [\<lparr>shapes = [stroke0], history = [peer_entry]\<rparr>]"
    unfolding undone_board_def
    by (simp_all add: performUndo_fields [OF a] snapshot_def,
        simp_all add: drawn_board_def empty_board_def)
  have d: "redoStack undone_board \<noteq> []"
    using c(2) by simp
  have e: "reaches_save (Delete ''s1'' ''Ann erased a stroke'') (fst (performRedo ''h3'' 9 undone_board))"
    by simp
  have f: "redoStack (fst (performRedo ''h3'' 9 undone_board)) = []"
    using c(2) by (simp add: performRedo_fields(2) [OF d])
  have u: "undone_board = fst (performUndo ''h2'' 8 drawn_board)"
    by (simp add: undone_board_def)
  show ?thesis
    using a b c d f
      local_undo_redo_suppresses_next_capture
        [of drawn_board undone_board "''h2''" 8, OF disjI1, OF conjI, OF a u b refl]
      local_undo_redo_suppresses_next_capture
        [of undone_board _ "''h3''" 9, OF disjI2, OF conjI, OF d refl e refl]
    by simp
qed

text \<open>
  Claim C5. From an empty undo stack, 60 local mutations in a row, each of which captures
  a snapshot, leave exactly 50 frames: the snapshots taken before the 11th to the 60th
  call, in that order. After the first \<open>k\<close> calls the stack holds the newest
  \<open>min k 50\<close> snapshots, so the frames are dropped oldest first, one for each push
  beyond the 50th.
\<close>

theorem undo_stack_keeps_newest_50:
  assumes "undoStack st = []" and "all_capture cs st" and "length cs = 60"
  shows "length (undoStack (run cs st)) = 50 \<and>
         undoStack (run cs st) = drop 10 (map snapshot (pre_states cs st)) \<and>
         (\<forall>k \<le> 60. undoStack (run (take k cs) st) =
                      drop (k - 50) (take k (map snapshot (pre_states cs st))))"
proof -
  have prefix: "undoStack (run (take k cs) st) =
                  drop (k - 50) (take k (map snapshot (pre_states cs st)))" if "k \<le> 60" for k
  proof (cases "k = 0")
    case True
    with assms(1) show ?thesis by simp
  next
    case False
    with assms(3) that have ne: "take k cs \<noteq> []" by auto
    from run_undoStack [OF ne all_capture_take [OF assms(2)]] assms(1,3) that
    show ?thesis
      by (simp add: slice_last_def pre_states_take length_pre_states take_map)
  qed
  from prefix [of 60] assms(3)
  have "undoStack (run cs st) = drop 10 (map snapshot (pre_states cs st))"
    by (simp add: length_pre_states)
  moreover from this assms(3) have "length (undoStack (run cs st)) = 50"
    by (simp add: length_pre_states)
  ultimately show ?thesis using prefix by blast
qed

theorem undo_stack_keeps_newest_50_witness:
  "undoStack empty_board = [] \<and> all_capture (replicate 60 commit_call) empty_board \<and>
   length (replicate 60 commit_call) = 60 \<and>
   length (undoStack (run (replicate 60 commit_call) empty_board)) = 50 \<and>
   undoStack (run (replicate 60 commit_call) empty_board) =
     drop 10 (map snapshot (pre_states (replicate 60 commit_call) empty_board))"
proof -
  have a: "undoStack empty_board = []" by (simp add: empty_board_def)
  have b: "all_capture (replicate 60 commit_call) empty_board"
    unfolding commit_call_def
    by (rule all_capture_replicate_commit) (simp add: empty_board_def)
  have c: "length (replicate 60 commit_call) = 60" by simp
  show ?thesis
    using a b c undo_stack_keeps_newest_50 [OF a b c] by blast
qed

text \<open>
  Claim C2, within the capacity of the stack. After \<open>N\<close> local mutations, each
  capturing a snapshot, with \<open>1 \<le> N \<le> 50\<close>: \<open>N\<close> calls of \<open>performUndo\<close> give back the
  shapes the run started from, and the history it started from under the entry of the
  last undo, cut to 250 entries; \<open>N\<close> calls of \<open>performRedo\<close> after them give back the
  shapes the run ended with.
\<close>

theorem undo_redo_inverse_within_cap:
  assumes "all_capture cs st" and "cs \<noteq> []" and "length cs \<le> 50"
    and "length us = length cs" and "length rs = length cs"
  shows "shapes (run_undos us (run cs st)) = shapes st \<and>
         history (run_undos us (run cs st)) =
           take 250 (undid_entry (fst (last us)) (snd (last us)) st # history st) \<and>
         shapes (run_redos rs (run_undos us (run cs st))) = shapes (run cs st)"
proof -
  let ?S = "run cs st"
  let ?fs = "map snapshot (pre_states cs st)"
  have len: "length ?fs = length cs" by (simp add: length_pre_states)
  have stack: "undoStack ?S = slice_last (50 - length cs) (undoStack st) @ ?fs"
    using run_undoStack [OF assms(2,1)] assms(3) len
    by (simp add: slice_last_keep)
  from assms(2,4) have usne: "us \<noteq> []" by auto
  from assms(2,5) have rsne: "rs \<noteq> []" by auto
  from assms(2) have hd: "hd ?fs = snapshot st"
    by (cases cs) simp_all
  from run_undos_unwind [OF stack _ usne] assms(4) len obtain rest where
    A: "shapes (run_undos us ?S) = shapes (hd ?fs)"
    and B: "history (run_undos us ?S) =
              take 250 (undid_entry (fst (last us)) (snd (last us)) ?S # history (hd ?fs))"
    and D: "redoStack (run_undos us ?S) = redoStack ?S @ snapshot ?S # rest"
    and E: "length rest = length us - 1"
    by auto
  have un: "undid_entry (fst (last us)) (snd (last us)) ?S =
            undid_entry (fst (last us)) (snd (last us)) st"
    by (simp add: undid_entry_def run_userName)
  have D': "redoStack (run_undos us ?S) = redoStack ?S @ (snapshot ?S # rest)"
    using D by simp
  have "length rs = length (snapshot ?S # rest)"
    using E assms(4,5) usne by (cases us) simp_all
  from run_redos_unwind [OF D' this rsne]
  have R: "shapes (run_redos rs (run_undos us ?S)) = shapes ?S"
    by (simp add: snapshot_def)
  from A B R un hd show ?thesis by (simp add: snapshot_def)
qed

theorem undo_redo_inverse_within_cap_witness:
  "all_capture (replicate 2 commit_call) drawn_board \<and>
   shapes (run (replicate 2 commit_call) drawn_board) = [stroke0, stroke0, stroke0] \<and>
   shapes (run_undos [(''h3'', 9), (''h4'', 10)] (run (replicate 2 commit_call) drawn_board)) = [stroke0] \<and>
   history (run_undos [(''h3'', 9), (''h4'', 10)] (run (replicate 2 commit_call) drawn_board)) =
     [\<lparr>item_id = ''h4'', timestamp = 10, user = ''Ann'', description = ''Ann undid last action''\<rparr>,
      peer_entry] \<and>
   shapes (run_redos [(''h5'', 11), (''h6'', 12)]
     (run_undos [(''h3'', 9), (''h4'', 10)] (run (replicate 2 commit_call) drawn_board))) =
     [stroke0, stroke0, stroke0]"
proof -
  have a: "all_capture (replicate 2 commit_call) drawn_board"
    unfolding commit_call_def
    by (rule all_capture_replicate_commit) (simp add: drawn_board_def empty_board_def)
  have b: "shapes (run (replicate 2 commit_call) drawn_board) = [stroke0, stroke0, stroke0]"
    by (simp add: numeral_2_eq_2 commit_call_def commitShape_def Let_def split_def
          drawn_board_def stroke0_def)
  have c: "shapes drawn_board = [stroke0]" "history drawn_board = [peer_entry]"
    "userName drawn_board = ''Ann''"
    by (simp_all add: drawn_board_def empty_board_def)
  show ?thesis
    using a b c
      undo_redo_inverse_within_cap [OF a, of "[(''h3'', 9), (''h4'', 10)]" "[(''h5'', 11), (''h6'', 12)]"]
    by (simp add: undid_entry_def)
qed

text \<open>
  Beyond the capacity the start is out of reach: after 51 commits on an empty board the
  frame of the empty board has been dropped, and 51 undos end on the board with one
  stroke. And a history that already holds 250 entries loses its oldest entry to the
  entry of the undo.
\<close>

theorem undo_past_cap_counterexample:
  "all_capture (replicate 51 commit_call) empty_board \<and>
   shapes empty_board = [] \<and>
   shapes (run_undos (replicate 51 (''h3'', 9)) (run (replicate 51 commit_call) empty_board)) = [stroke0] \<and>
   shapes (run_undos (replicate 51 (''h3'', 9)) (run (replicate 51 commit_call) empty_board)) \<noteq>
     shapes empty_board \<and>
   all_capture [commit_call] full_log_board \<and>
   history full_log_board = replicate 250 peer_entry \<and>
   history (run_undos [(''h3'', 9)] (run [commit_call] full_log_board)) =
     \<lparr>item_id = ''h3'', timestamp = 9, user = ''Ann'', description = ''Ann undid last action''\<rparr>
       # replicate 249 peer_entry"
proof -
  have a: "all_capture (replicate 51 commit_call) empty_board"
    unfolding commit_call_def
    by (rule all_capture_replicate_commit) (simp add: empty_board_def)
  have b: "replicate 51 (''h3'', 9 :: nat) = replicate 50 (''h3'', 9) @ [(''h3'', 9)]"
    using replicate_add [of 50 1 "(''h3'', 9 :: nat)"] by simp
  have c: "shapes (step commit_call empty_board) = [stroke0]"
    by (simp add: commit_call_def commitShape_def Let_def split_def empty_board_def stroke0_def)
  have d: "hd (replicate 51 commit_call) = commit_call" by simp
  have e: "shapes (run_undos (replicate 51 (''h3'', 9)) (run (replicate 51 commit_call) empty_board)) = [stroke0]"
    using overflow_undo [OF a, of "replicate 50 (''h3'', 9)" "(''h3'', 9)"] b c d
    by (simp add: empty_board_def)
  have f: "all_capture [commit_call] full_log_board"
    by (simp add: captures_def commit_call_def full_log_board_def empty_board_def)
  have g: "history (run_undos [(''h3'', 9)] (run [commit_call] full_log_board)) =
     \<lparr>item_id = ''h3'', timestamp = 9, user = ''Ann'', description = ''Ann undid last action''\<rparr>
       # replicate 249 peer_entry"
    by (simp add: commit_call_def commitShape_def performUndo_def saveStateForUndo_def
          pushHistory_def slice_last_def snapshot_def Let_def split_def
          full_log_board_def empty_board_def)
  show ?thesis
    using a e f g by (simp add: empty_board_def full_log_board_def)
qed

section \<open>Bounds\<close>




end
